theory Spec2Isabelle
  imports Complex_Main "HOL-Library.Sublist"
begin

section \<open>JavaScript values\<close>

text \<open>
  The values handed to the Tester of \<^verbatim>\<open>modules/tester.js\<close>. A JavaScript number is an
  IEEE double: not-a-number, one of the two infinities, or a finite value (a rational;
  the two zeros are one value here, as \<^verbatim>\<open>===\<close> does not tell them apart). A function is
  kept as its source text, which is all \<^verbatim>\<open>testEquals\<close> reads of it. An array is the list
  of its elements, a plain object the list of its own enumerable properties in creation
  order. Values are finite trees, so none of them is cyclic. Objects of other kinds
  (dates, regular expressions, errors, objects without a prototype) are left out.
\<close>

datatype jsnum = NaN | Infinity bool | Finite rat

datatype jsval =
    JUndefined
  | JNull
  | JBool bool
  | JNum jsnum
  | JStr string
  | JFun string
  | JArr "jsval list"
  | JObj "(string \<times> jsval) list"

text \<open>Decimal text of an array index: the property name of the element.\<close>

fun index_key :: "nat \<Rightarrow> string" where
  "index_key n =
     (if n < 10 then [char_of (48 + n)]
      else index_key (n div 10) @ [char_of (48 + n mod 10)])"

declare index_key.simps [simp del]

text \<open>The own enumerable properties of a value, in enumeration order.\<close>

fun own_props :: "jsval \<Rightarrow> (string \<times> jsval) list" where
  "own_props (JArr xs) = zip (map index_key [0..<length xs]) xs"
| "own_props (JObj kvs) = kvs"
| "own_props _ = []"

text \<open>\<^verbatim>\<open>Object.keys(v)\<close>, also the keys that \<^verbatim>\<open>for (var k in v)\<close> visits.\<close>

definition keys :: "jsval \<Rightarrow> string list" where
  "keys v = map fst (own_props v)"

text \<open>\<^verbatim>\<open>v[k]\<close>: reading a property that is absent gives \<^verbatim>\<open>undefined\<close>.\<close>

definition getprop :: "jsval \<Rightarrow> string \<Rightarrow> jsval" where
  "getprop v k = (case map_of (own_props v) k of Some x \<Rightarrow> x | None \<Rightarrow> JUndefined)"

text \<open>
  Modelled from the spec: \<^verbatim>\<open>utils.betterTypeOf\<close> (module utils, not part of the
  sources at hand) gives the refined type tag of a value, telling apart null, undefined,
  boolean, number, string, array, function and plain object.
\<close>

fun betterTypeOf :: "jsval \<Rightarrow> string" where
  "betterTypeOf JUndefined = ''undefined''"
| "betterTypeOf JNull = ''null''"
| "betterTypeOf (JBool _) = ''boolean''"
| "betterTypeOf (JNum _) = ''number''"
| "betterTypeOf (JStr _) = ''string''"
| "betterTypeOf (JFun _) = ''function''"
| "betterTypeOf (JArr _) = ''array''"
| "betterTypeOf (JObj _) = ''object''"

text \<open>Modelled from the spec: \<^verbatim>\<open>utils.isFunction\<close> holds of callable values.\<close>

fun isFunction :: "jsval \<Rightarrow> bool" where
  "isFunction (JFun _) = True"
| "isFunction _ = False"

text \<open>\<^verbatim>\<open>v.toString()\<close> of a function: its source text.\<close>

fun fun_toString :: "jsval \<Rightarrow> string" where
  "fun_toString (JFun src) = src"
| "fun_toString _ = []"

text \<open>\<^verbatim>\<open>v instanceof Object\<close>: arrays, plain objects and functions; no primitive.\<close>

fun instanceof_Object :: "jsval \<Rightarrow> bool" where
  "instanceof_Object (JFun _) = True"
| "instanceof_Object (JArr _) = True"
| "instanceof_Object (JObj _) = True"
| "instanceof_Object _ = False"

text \<open>\<^verbatim>\<open>===\<close> on numbers: not-a-number equals nothing, itself included.\<close>

fun num_strict_equals :: "jsnum \<Rightarrow> jsnum \<Rightarrow> bool" where
  "num_strict_equals NaN _ = False"
| "num_strict_equals _ NaN = False"
| "num_strict_equals a b = (a = b)"

text \<open>
  \<^verbatim>\<open>v1 === v2\<close> on primitives. Functions, arrays and objects are compared by reference
  in JavaScript; \<^verbatim>\<open>testEquals\<close> never brings two of them to this comparison (they are
  functions or instances of Object, which it handles before), so that case is closed
  with \<open>False\<close> here.
\<close>

fun strict_equals :: "jsval \<Rightarrow> jsval \<Rightarrow> bool" where
  "strict_equals JUndefined JUndefined = True"
| "strict_equals JNull JNull = True"
| "strict_equals (JBool a) (JBool b) = (a = b)"
| "strict_equals (JNum a) (JNum b) = num_strict_equals a b"
| "strict_equals (JStr a) (JStr b) = (a = b)"
| "strict_equals _ _ = False"

lemma size_own_props: "(k, x) \<in> set (own_props v) \<Longrightarrow> size x < size v"
proof (cases v)
  case (JArr xs)
  assume "(k, x) \<in> set (own_props v)"
  with JArr have "x \<in> set xs" by (auto dest: set_zip_rightD)
  then have "size x \<le> size_list size xs" by (induction xs) auto
  with JArr show ?thesis by simp
next
  case (JObj kvs)
  assume "(k, x) \<in> set (own_props v)"
  with JObj have "(k, x) \<in> set kvs" by simp
  then have "size x \<le> size_list (size_prod (\<lambda>_. 0) size) kvs"
    by (induction kvs) auto
  with JObj show ?thesis by simp
qed simp_all

lemma size_getprop: "k \<in> set (keys v) \<Longrightarrow> size (getprop v k) < size v"
proof -
  assume "k \<in> set (keys v)"
  then have "map_of (own_props v) k \<noteq> None"
    by (simp add: keys_def map_of_eq_None_iff)
  then obtain x where "map_of (own_props v) k = Some x"
    by blast
  then show ?thesis
    using size_own_props [of k x v] by (simp add: getprop_def map_of_SomeD)
qed

subsection \<open>The equality comparator\<close>

text \<open>
  \<^verbatim>\<open>Tester.testEquals(v1, v2)\<close>: different type tags give false; two functions are
  compared by source text; two instances of Object need the same number of keys and, for
  every key \<open>k\<close> that \<^verbatim>\<open>for (var k in v1)\<close> visits, \<^verbatim>\<open>testEquals(v1[k], v2[k])\<close>; anything
  else is compared with \<^verbatim>\<open>===\<close>.
\<close>

function testEquals :: "jsval \<Rightarrow> jsval \<Rightarrow> bool" where
  "testEquals v1 v2 =
     (if betterTypeOf v1 \<noteq> betterTypeOf v2 then False
      else if isFunction v1 then fun_toString v1 = fun_toString v2
      else if instanceof_Object v1 \<and> instanceof_Object v2 then
        (if length (keys v1) \<noteq> length (keys v2) then False
         else list_all (\<lambda>k. testEquals (getprop v1 k) (getprop v2 k)) (keys v1))
      else strict_equals v1 v2)"
  by pat_completeness auto
termination
  by (relation "measure (\<lambda>(v1, v2). size v1)") (simp_all add: size_getprop)

declare testEquals.simps [simp del]

section \<open>The Tester and its collaborators\<close>

text \<open>
  What a piece of JavaScript can throw: the \<^verbatim>\<open>CasperError\<close> of the Tester, the
  \<^verbatim>\<open>TypeError\<close> of the runtime (calling what is not a function), or any value.
  A test message is any value, or a caught exception handed to \<^verbatim>\<open>fail\<close>.
\<close>

datatype exn = CasperError string | TypeError string | Thrown jsval

datatype message = Message jsval | Caught exn

text \<open>A RegExp: what \<^verbatim>\<open>pattern.test(subject)\<close> answers, and \<^verbatim>\<open>pattern.toString()\<close>.\<close>

datatype regexp = RegExp (test: "string \<Rightarrow> bool") (source: string)

text \<open>The details object \<^verbatim>\<open>{message: ..., file: ...}\<close> of an event, kept per failure
  (the field \<^verbatim>\<open>file\<close> is \<open>testfile\<close> here).\<close>

record failure =
  message :: message
  testfile :: "string option"

record testResults =
  passed :: nat
  failed :: nat
  failures :: "failure list"

text \<open>
  What reaches the console through \<^verbatim>\<open>casper.echo\<close>. Colours and padding are the
  colorizer's business and \<^verbatim>\<open>utils.serialize\<close> is not at hand, so a line is kept by
  its parts: the status label with its style and the message; a comment with the value
  or text it shows; a bar with its text and style; the summary with its label, the
  total, the two counters and its style; the header of the failure details with their
  number, and for each failure its file and its message; any other text with its style.
\<close>

datatype echoed =
    Status string string message
  | CommentValue string jsval
  | CommentText string string
  | Bar string string
  | Summary string nat nat nat string
  | DetailsHeader nat
  | InFile "string option"
  | Detail message
  | Echo string string

text \<open>An entry of the xunit exporter: \<^verbatim>\<open>addSuccess\<close>, or \<^verbatim>\<open>addFailure\<close> with its kind.\<close>

datatype xunit = Success message | Failure message string

text \<open>
  A recording of the two calls that bound a suite, \<^verbatim>\<open>runTest(file)\<close> and \<^verbatim>\<open>done()\<close>,
  in the order they happen. It is an observation only: no function reads it.
\<close>

datatype mark = Started string | Completed

record options =
  opt_PASS :: "string option"
  opt_FAIL :: "string option"
  opt_save :: "string option"

text \<open>
  The Tester object with the state of the collaborators it writes to: the console and
  the statuses \<^verbatim>\<open>casper.exit\<close> was called with (driver), the exporter's entries, the
  events emitted, the report files written, and the files whose code the script loader
  was asked for (\<^verbatim>\<open>phantom.getScriptCode\<close>), each in the order of the calls.
\<close>

record tester =
  currentTestFile :: "string option"
  running :: bool
  testResults :: testResults
  opts :: options
  console :: "echoed list"
  exported :: "xunit list"
  emitted :: "(string \<times> failure) list"
  written :: "(string \<times> xunit list) list"
  exited :: "int list"
  loaded :: "string list"
  journal :: "mark list"

text \<open>\<^verbatim>\<open>new Tester(casper, options)\<close>, for a Casper instance.\<close>

definition Tester :: "options \<Rightarrow> tester" where
  "Tester options =
     \<lparr> currentTestFile = None, running = False,
       testResults = \<lparr> passed = 0, failed = 0, failures = [] \<rparr>,
       opts = options, console = [], exported = [], emitted = [], written = [],
       exited = [], loaded = [], journal = [] \<rparr>"

text \<open>\<^verbatim>\<open>this.options.PASS || "PASS"\<close>: an absent or empty label gives the default.\<close>

definition PASS :: "tester \<Rightarrow> string" where
  "PASS t = (case opt_PASS (opts t) of None \<Rightarrow> ''PASS'' | Some l \<Rightarrow> if l = [] then ''PASS'' else l)"

definition FAIL :: "tester \<Rightarrow> string" where
  "FAIL t = (case opt_FAIL (opts t) of None \<Rightarrow> ''FAIL'' | Some l \<Rightarrow> if l = [] then ''FAIL'' else l)"

definition echo :: "echoed \<Rightarrow> tester \<Rightarrow> tester" where
  "echo line t = t\<lparr>console := console t @ [line]\<rparr>"

definition bar :: "string \<Rightarrow> string \<Rightarrow> tester \<Rightarrow> tester" where
  "bar text style t = echo (Bar text style) t"

definition addSuccess :: "message \<Rightarrow> tester \<Rightarrow> tester" where
  "addSuccess m t = t\<lparr>exported := exported t @ [Success m]\<rparr>"

definition addFailure :: "message \<Rightarrow> string \<Rightarrow> tester \<Rightarrow> tester" where
  "addFailure m kind t = t\<lparr>exported := exported t @ [Failure m kind]\<rparr>"

text \<open>
  \<^verbatim>\<open>this.emit(eventName, details)\<close>: the listeners run before the call returns. The
  Tester registers one, on \<^verbatim>\<open>fail\<close>, which pushes the details onto the failures.
\<close>

definition emit :: "string \<Rightarrow> failure \<Rightarrow> tester \<Rightarrow> tester" where
  "emit eventName details t =
     (let t1 = t\<lparr>emitted := emitted t @ [(eventName, details)]\<rparr>
      in if eventName = ''fail''
         then t1\<lparr>testResults := (testResults t1)\<lparr>failures := failures (testResults t1) @ [details]\<rparr>\<rparr>
         else t1)"

definition incr_passed :: "tester \<Rightarrow> tester" where
  "incr_passed t = t\<lparr>testResults := (testResults t)\<lparr>passed := passed (testResults t) + 1\<rparr>\<rparr>"

definition incr_failed :: "tester \<Rightarrow> tester" where
  "incr_failed t = t\<lparr>testResults := (testResults t)\<lparr>failed := failed (testResults t) + 1\<rparr>\<rparr>"

subsection \<open>Assertions\<close>

text \<open>
  \<^verbatim>\<open>assert(condition, message)\<close>. The function has no \<^verbatim>\<open>return\<close> statement, so the
  value of a call is \<^verbatim>\<open>undefined\<close>; the model returns it with the new state.
\<close>

definition assert :: "jsval \<Rightarrow> message \<Rightarrow> tester \<Rightarrow> jsval \<times> tester" where
  "assert condition m t =
     (if condition = JBool True then
        (let t1 = incr_passed t;
             t2 = addSuccess m t1;
             t3 = emit ''success'' \<lparr> message = m, testfile = currentTestFile t2 \<rparr> t2
         in (JUndefined, echo (Status (PASS t3) ''INFO'' m) t3))
      else
        (let t1 = incr_failed t;
             t2 = addFailure m ''assert'' t1;
             t3 = emit ''fail'' \<lparr> message = m, testfile = currentTestFile t2 \<rparr> t2
         in (JUndefined, echo (Status (FAIL t3) ''RED_BAR'' m) t3)))"

text \<open>\<^verbatim>\<open>comment(message)\<close> writes a comment line.\<close>

definition assertEquals :: "jsval \<Rightarrow> jsval \<Rightarrow> message \<Rightarrow> tester \<Rightarrow> jsval \<times> tester" where
  "assertEquals testValue expected m t =
     (if testEquals testValue expected then
        (let t1 = echo (Status (PASS t) ''INFO'' m) t;
             t2 = incr_passed t1;
             t3 = addSuccess m t2
         in (JUndefined, emit ''success'' \<lparr> message = m, testfile = currentTestFile t3 \<rparr> t3))
      else
        (let t1 = echo (Status (FAIL t) ''RED_BAR'' m) t;
             t2 = echo (CommentValue ''   got:      '' testValue) t1;
             t3 = echo (CommentValue ''   expected: '' expected) t2;
             t4 = incr_failed t3;
             t5 = addFailure m ''assertEquals'' t4
         in (JUndefined, emit ''fail'' \<lparr> message = m, testfile = currentTestFile t5 \<rparr> t5)))"

definition assertMatch :: "string \<Rightarrow> regexp \<Rightarrow> message \<Rightarrow> tester \<Rightarrow> jsval \<times> tester" where
  "assertMatch subject pattern m t =
     (if test pattern subject then
        (let t1 = echo (Status (PASS t) ''INFO'' m) t;
             t2 = incr_passed t1;
             t3 = addSuccess m t2
         in (JUndefined, emit ''success'' \<lparr> message = m, testfile = currentTestFile t3 \<rparr> t3))
      else
        (let t1 = echo (Status (FAIL t) ''RED_BAR'' m) t;
             t2 = echo (CommentText ''   subject: '' subject) t1;
             t3 = echo (CommentText ''   pattern: '' (source pattern)) t2;
             t4 = incr_failed t3;
             t5 = addFailure m ''assertMatch'' t4
         in (JUndefined, emit ''fail'' \<lparr> message = m, testfile = currentTestFile t5 \<rparr> t5)))"

text \<open>\<^verbatim>\<open>!condition\<close>: false, 0, NaN, the empty string, null and undefined are falsy.\<close>

fun truthy :: "jsval \<Rightarrow> bool" where
  "truthy JUndefined = False"
| "truthy JNull = False"
| "truthy (JBool b) = b"
| "truthy (JNum NaN) = False"
| "truthy (JNum (Finite q)) = (q \<noteq> 0)"
| "truthy (JNum (Infinity _)) = True"
| "truthy (JStr s) = (s \<noteq> [])"
| "truthy _ = True"

definition assertNot :: "jsval \<Rightarrow> message \<Rightarrow> tester \<Rightarrow> jsval \<times> tester" where
  "assertNot condition m t = assert (JBool (\<not> truthy condition)) m t"

text \<open>\<^verbatim>\<open>pass(message)\<close> and \<^verbatim>\<open>fail(message)\<close> call \<^verbatim>\<open>assert\<close> and return nothing.\<close>

definition pass :: "message \<Rightarrow> tester \<Rightarrow> tester" where
  "pass m t = snd (assert (JBool True) m t)"

definition fail :: "message \<Rightarrow> tester \<Rightarrow> tester" where
  "fail m t = snd (assert (JBool False) m t)"

text \<open>
  \<^verbatim>\<open>assertRaises(fn, args, message)\<close>: \<^verbatim>\<open>fn.apply(null, args)\<close> inside \<^verbatim>\<open>try\<close>; a
  normal return is followed by \<^verbatim>\<open>fail\<close>, anything thrown is caught, dropped and
  followed by \<^verbatim>\<open>pass\<close>. The function under test is one that leaves the Tester alone:
  it returns a value (\<open>Inr\<close>) or throws (\<open>Inl\<close>).
\<close>

definition assertRaises ::
  "(jsval list \<Rightarrow> exn + jsval) \<Rightarrow> jsval list \<Rightarrow> message \<Rightarrow> tester \<Rightarrow> jsval \<times> tester" where
  "assertRaises fn args m t =
     (case fn args of
        Inr _ \<Rightarrow> (JUndefined, fail m t)
      | Inl e \<Rightarrow> (JUndefined, pass m t))"

text \<open>
  The driver (the Casper instance), by the answers the derived assertions ask it for.
\<close>

record driver =
  evaluate :: "string \<Rightarrow> jsval"
  exists :: "string \<Rightarrow> bool"
  resourceExists :: "jsval \<Rightarrow> bool"
  getTitle :: string
  getCurrentUrl :: string

definition assertEval :: "driver \<Rightarrow> string \<Rightarrow> message \<Rightarrow> tester \<Rightarrow> jsval \<times> tester" where
  "assertEval casper fn m t = assert (evaluate casper fn) m t"

definition assertEvalEquals ::
  "driver \<Rightarrow> string \<Rightarrow> jsval \<Rightarrow> message \<Rightarrow> tester \<Rightarrow> jsval \<times> tester" where
  "assertEvalEquals casper fn expected m t = assertEquals (evaluate casper fn) expected m t"

definition assertExists :: "driver \<Rightarrow> string \<Rightarrow> message \<Rightarrow> tester \<Rightarrow> jsval \<times> tester" where
  "assertExists casper selector m t = assert (JBool (exists casper selector)) m t"

definition assertResourceExists ::
  "driver \<Rightarrow> jsval \<Rightarrow> message \<Rightarrow> tester \<Rightarrow> jsval \<times> tester" where
  "assertResourceExists casper tst m t = assert (JBool (resourceExists casper tst)) m t"

text \<open>
  \<^verbatim>\<open>assertSelectorExists\<close> calls \<^verbatim>\<open>this.exists(selector)\<close>, and a Tester has no method
  \<^verbatim>\<open>exists\<close> (the driver has): the call throws a TypeError before \<^verbatim>\<open>assert\<close> is reached.
\<close>

definition assertSelectorExists :: "string \<Rightarrow> message \<Rightarrow> tester \<Rightarrow> (exn + jsval) \<times> tester" where
  "assertSelectorExists selector m t = (Inl (TypeError ''this.exists is not a function''), t)"

definition assertTitle :: "driver \<Rightarrow> jsval \<Rightarrow> message \<Rightarrow> tester \<Rightarrow> jsval \<times> tester" where
  "assertTitle casper expected m t = assertEquals (JStr (getTitle casper)) expected m t"

definition assertType :: "jsval \<Rightarrow> jsval \<Rightarrow> message \<Rightarrow> tester \<Rightarrow> jsval \<times> tester" where
  "assertType input type m t = assertEquals (JStr (betterTypeOf input)) type m t"

definition assertUrlMatch :: "driver \<Rightarrow> regexp \<Rightarrow> message \<Rightarrow> tester \<Rightarrow> jsval \<times> tester" where
  "assertUrlMatch casper pattern m t = assertMatch (getCurrentUrl casper) pattern m t"

text \<open>\<^verbatim>\<open>done()\<close> declares the current suite done.\<close>

definition suite_done :: "tester \<Rightarrow> tester" where
  "suite_done t = t\<lparr>running := False, journal := journal t @ [Completed]\<rparr>"

text \<open>One call of the assertion interface, as a test script makes it.\<close>

datatype call =
    Assert jsval message
  | AssertEquals jsval jsval message
  | AssertEval string message
  | AssertEvalEquals string jsval message
  | AssertExists string message
  | AssertMatch string regexp message
  | AssertNot jsval message
  | AssertRaises "jsval list \<Rightarrow> exn + jsval" "jsval list" message
  | AssertResourceExists jsval message
  | AssertSelectorExists string message
  | AssertTitle jsval message
  | AssertType jsval jsval message
  | AssertUrlMatch regexp message
  | Pass message
  | Fail message

definition returned :: "jsval \<times> tester \<Rightarrow> (exn + jsval) \<times> tester" where
  "returned r = (Inr (fst r), snd r)"

fun do_call :: "driver \<Rightarrow> call \<Rightarrow> tester \<Rightarrow> (exn + jsval) \<times> tester" where
  "do_call casper (Assert c m) t = returned (assert c m t)"
| "do_call casper (AssertEquals v e m) t = returned (assertEquals v e m t)"
| "do_call casper (AssertEval fn m) t = returned (assertEval casper fn m t)"
| "do_call casper (AssertEvalEquals fn e m) t = returned (assertEvalEquals casper fn e m t)"
| "do_call casper (AssertExists sel m) t = returned (assertExists casper sel m t)"
| "do_call casper (AssertMatch s p m) t = returned (assertMatch s p m t)"
| "do_call casper (AssertNot c m) t = returned (assertNot c m t)"
| "do_call casper (AssertRaises fn args m) t = returned (assertRaises fn args m t)"
| "do_call casper (AssertResourceExists tst m) t = returned (assertResourceExists casper tst m t)"
| "do_call casper (AssertSelectorExists sel m) t = assertSelectorExists sel m t"
| "do_call casper (AssertTitle e m) t = returned (assertTitle casper e m t)"
| "do_call casper (AssertType i ty m) t = returned (assertType i ty m t)"
| "do_call casper (AssertUrlMatch p m) t = returned (assertUrlMatch casper p m t)"
| "do_call casper (Pass m) t = (Inr JUndefined, pass m t)"
| "do_call casper (Fail m) t = (Inr JUndefined, fail m t)"

text \<open>
  A sequence of calls, one after the other; a call that throws ends the sequence, as
  the exception leaves the script that makes the calls.
\<close>

fun do_calls :: "driver \<Rightarrow> call list \<Rightarrow> tester \<Rightarrow> exn option \<times> tester" where
  "do_calls casper [] t = (None, t)"
| "do_calls casper (c # cs) t =
     (case do_call casper c t of
        (Inl e, t') \<Rightarrow> (Some e, t')
      | (Inr _, t') \<Rightarrow> do_calls casper cs t')"

subsection \<open>The host: filesystem, script loader, filters\<close>

text \<open>
  The collaborators that \<^verbatim>\<open>exec\<close>, \<^verbatim>\<open>findTestFiles\<close> and \<^verbatim>\<open>runSuites\<close> call, taken as
  parameters: the functions of module \<^verbatim>\<open>fs\<close>; \<^verbatim>\<open>utils.isJsFile\<close> (a file name with the
  extension js or coffee); the filter registered for \<^verbatim>\<open>exec.file\<close>, whose answer
  \<^verbatim>\<open>this.filter('exec.file', file)\<close> is \<open>None\<close> when there is none; the text of the error
  that \<^verbatim>\<open>fs.write\<close> to a path throws (\<open>None\<close> when it succeeds); and what running the code
  of a file does.
\<close>

datatype action = Call call | SignalDone

text \<open>
  What a piece of test code does while it runs: calls of the assertion interface and
  of \<^verbatim>\<open>done()\<close>, in order, and then it returns or throws.
\<close>

record script =
  body :: "action list"
  raises :: "exn option"

record env =
  fs_exists :: "string \<Rightarrow> bool"
  fs_isFile :: "string \<Rightarrow> bool"
  fs_isDirectory :: "string \<Rightarrow> bool"
  fs_list :: "string \<Rightarrow> string list"
  fs_absolute :: "string \<Rightarrow> string"
  fs_pathJoin :: "string \<Rightarrow> string \<Rightarrow> string"
  fs_write_error :: "string \<Rightarrow> string option"
  isJsFile :: "string \<Rightarrow> bool"
  exec_file_filter :: "string \<Rightarrow> string option"
  getScriptCode :: "string \<Rightarrow> script"

fun run_actions :: "driver \<Rightarrow> action list \<Rightarrow> tester \<Rightarrow> exn option \<times> tester" where
  "run_actions casper [] t = (None, t)"
| "run_actions casper (Call c # acts) t =
     (case do_call casper c t of
        (Inl e, t') \<Rightarrow> (Some e, t')
      | (Inr _, t') \<Rightarrow> run_actions casper acts t')"
| "run_actions casper (SignalDone # acts) t = run_actions casper acts (suite_done t)"

definition run_script :: "driver \<Rightarrow> script \<Rightarrow> tester \<Rightarrow> exn option \<times> tester" where
  "run_script casper sc t =
     (case run_actions casper (body sc) t of
        (Some e, t') \<Rightarrow> (Some e, t')
      | (None, t') \<Rightarrow> (raises sc, t'))"

text \<open>
  Modelled from the spec: \<^verbatim>\<open>phantom.processScriptError(e, file, callback)\<close> (bootstrap
  code, not part of the sources at hand) hands the error to the callback, so that the
  exception becomes one failing assertion followed by the completion signal. The
  callback is the one \<^verbatim>\<open>exec\<close> passes: \<^verbatim>\<open>self.fail(e); self.done()\<close>.
\<close>

definition processScriptError :: "exn \<Rightarrow> string \<Rightarrow> tester \<Rightarrow> tester" where
  "processScriptError e file t = suite_done (fail (Caught e) t)"

text \<open>
  \<^verbatim>\<open>exec(file)\<close>. Its first statement is
  \<^verbatim>\<open>file = this.filter('exec.file', file) || file\<close>: the filter's answer replaces the
  path unless it is absent or empty. After the check and the assignment of
  \<^verbatim>\<open>currentTestFile\<close> the code of the file is fetched (which the loader records) and
  run. The outcome is the exception that leaves the call, if any, with the state at
  that point.
\<close>

definition filtered_file :: "env \<Rightarrow> string \<Rightarrow> string" where
  "filtered_file E file0 =
     (case exec_file_filter E file0 of
        None \<Rightarrow> file0
      | Some f \<Rightarrow> if f = [] then file0 else f)"

definition exec :: "driver \<Rightarrow> env \<Rightarrow> string \<Rightarrow> tester \<Rightarrow> exn option \<times> tester" where
  "exec casper E file0 t =
     (let file = filtered_file E file0
      in if \<not> fs_isFile E file \<or> \<not> isJsFile E file then
           (Some (CasperError ''Can only exec() files with .js or .coffee extensions''), t)
         else
           (let t1 = t\<lparr>currentTestFile := Some file\<rparr>;
                t2 = t1\<lparr>loaded := loaded t1 @ [file]\<rparr>
            in case run_script casper (getScriptCode E file) t2 of
                 (None, t3) \<Rightarrow> (None, t3)
               | (Some e, t3) \<Rightarrow> (None, processScriptError e file t3)))"

subsection \<open>Suite discovery\<close>

text \<open>
  The start value of \<^verbatim>\<open>entries\<close> in \<^verbatim>\<open>findTestFiles(dir)\<close>: the listing without the
  self and parent markers, each name joined to \<open>dir\<close> and made absolute.
\<close>

definition dir_entries :: "env \<Rightarrow> string \<Rightarrow> string list" where
  "dir_entries E dir =
     map (\<lambda>entry. fs_absolute E (fs_pathJoin E dir entry))
       (filter (\<lambda>entry. entry \<noteq> ''.'' \<and> entry \<noteq> ''..'') (fs_list E dir))"

text \<open>
  The \<^verbatim>\<open>forEach\<close> of \<^verbatim>\<open>findTestFiles\<close>: it walks the array that \<^verbatim>\<open>entries\<close> named when
  the loop began, and for each directory in it rebinds \<^verbatim>\<open>entries\<close> to
  \<^verbatim>\<open>entries.concat(self.findTestFiles(entry))\<close>. \<open>rec\<close> is the recursive call.
\<close>

fun expand_dirs ::
  "(string \<Rightarrow> string list option) \<Rightarrow> (string \<Rightarrow> bool) \<Rightarrow> string list \<Rightarrow> string list
   \<Rightarrow> string list option" where
  "expand_dirs rec isDir [] entries = Some entries"
| "expand_dirs rec isDir (entry # rest) entries =
     (if isDir entry then
        (case rec entry of
           None \<Rightarrow> None
         | Some found \<Rightarrow> expand_dirs rec isDir rest (entries @ found))
      else expand_dirs rec isDir rest entries)"

text \<open>
  \<^verbatim>\<open>findTestFiles(dir)\<close>. The recursion follows the directory tree and has no bound of
  its own; the first argument bounds its depth, and \<open>None\<close> says the bound was reached.
\<close>

fun findTestFiles :: "nat \<Rightarrow> env \<Rightarrow> string \<Rightarrow> string list option" where
  "findTestFiles 0 E dir = None"
| "findTestFiles (Suc n) E dir =
     (if \<not> fs_isDirectory E dir then Some []
      else
        (case expand_dirs (findTestFiles n E) (fs_isDirectory E) (dir_entries E dir) (dir_entries E dir) of
           None \<Rightarrow> None
         | Some entries \<Rightarrow>
             Some (filter (\<lambda>entry. isJsFile E (fs_absolute E (fs_pathJoin E dir entry))) entries)))"

text \<open>The loop over the arguments of \<^verbatim>\<open>runSuites\<close>, which fills \<^verbatim>\<open>testFiles\<close>.\<close>

fun collect :: "nat \<Rightarrow> env \<Rightarrow> string list \<Rightarrow> string list \<Rightarrow> tester
   \<Rightarrow> (string list \<times> tester) option" where
  "collect n E [] testFiles t = Some (testFiles, t)"
| "collect n E (path # paths) testFiles t =
     (let t1 = (if \<not> fs_exists E path
                then bar (''Path '' @ path @ '' doesn't exist'') ''RED_BAR'' t else t)
      in if fs_isDirectory E path then
           (case findTestFiles n E path of
              None \<Rightarrow> None
            | Some found \<Rightarrow> collect n E paths (testFiles @ found) t1)
         else if fs_isFile E path then collect n E paths (testFiles @ [path]) t1
         else collect n E paths testFiles t1)"

text \<open>
  The ordering as the specification words it (section 4.3), for comparison: the entries
  in listing order, each directory replaced, where it stands, by its own expansion.
\<close>

fun concat_options :: "'a list option list \<Rightarrow> 'a list option" where
  "concat_options [] = Some []"
| "concat_options (None # rest) = None"
| "concat_options (Some xs # rest) =
     (case concat_options rest of None \<Rightarrow> None | Some ys \<Rightarrow> Some (xs @ ys))"

fun spec_depth_first :: "nat \<Rightarrow> env \<Rightarrow> string \<Rightarrow> string list option" where
  "spec_depth_first 0 E dir = None"
| "spec_depth_first (Suc n) E dir =
     (if \<not> fs_isDirectory E dir then Some []
      else concat_options
        (map (\<lambda>entry. if fs_isDirectory E entry then spec_depth_first n E entry
                       else Some (if isJsFile E entry then [entry] else []))
           (dir_entries E dir)))"

subsection \<open>Reporting\<close>

text \<open>
  Modelled from the spec: \<^verbatim>\<open>casper.exit(status)\<close> is the driver's process-exit trigger
  (not part of the sources at hand). The statements that follow a call in
  \<^verbatim>\<open>tester.js\<close> are written for a call that returns (\<^verbatim>\<open>clearInterval\<close> comes after
  \<^verbatim>\<open>renderResults(true)\<close>, \<^verbatim>\<open>setInterval\<close> after \<^verbatim>\<open>casper.exit(1)\<close>), so the call records
  the status asked for and control goes on.
\<close>

definition casper_exit :: "int \<Rightarrow> tester \<Rightarrow> tester" where
  "casper_exit status t = t\<lparr>exited := exited t @ [status]\<rparr>"

fun renderFailure :: "failure \<Rightarrow> tester \<Rightarrow> tester" where
  "renderFailure failure t = echo (Detail (message failure)) (echo (InFile (testfile failure)) t)"

definition renderFailureDetails :: "failure list \<Rightarrow> tester \<Rightarrow> tester" where
  "renderFailureDetails fails t =
     (if length fails = 0 then t
      else fold renderFailure fails (echo (DetailsHeader (length fails)) t))"

text \<open>
  \<^verbatim>\<open>renderResults(exit, status, save)\<close>; an absent argument is \<open>None\<close>, and
  \<^verbatim>\<open>status || 0\<close> gives 0 for an absent status.
\<close>

definition renderResults :: "env \<Rightarrow> bool \<Rightarrow> int option \<Rightarrow> string option \<Rightarrow> tester \<Rightarrow> tester" where
  "renderResults E exit status save0 t =
     (let save = (case save0 of Some s \<Rightarrow> Some s | None \<Rightarrow> opt_save (opts t));
          total = passed (testResults t) + failed (testResults t);
          t1 = (if total = 0
                then echo (Echo (FAIL t @ '' Looks like you didn't run any test.'') ''RED_BAR'') t
                else if failed (testResults t) > 0
                then echo (Summary (FAIL t) total (passed (testResults t)) (failed (testResults t)) ''RED_BAR'') t
                else echo (Summary (PASS t) total (passed (testResults t)) (failed (testResults t)) ''GREEN_BAR'') t);
          t2 = (if failed (testResults t1) > 0
                then renderFailureDetails (failures (testResults t1)) t1 else t1);
          t3 = (case save of
                  None \<Rightarrow> t2
                | Some path \<Rightarrow>
                    if path = [] then t2
                    else
                      (case fs_write_error E path of
                         None \<Rightarrow>
                           echo (Echo (''Result log stored in '' @ path) ''INFO'')
                             (t2\<lparr>written := written t2 @ [(path, exported t2)]\<rparr>)
                       | Some err \<Rightarrow>
                           echo (Echo (''Unable to write results to '' @ path @ '': '' @ err) ''ERROR'')
                             t2))
      in if exit then casper_exit (case status of None \<Rightarrow> 0 | Some st \<Rightarrow> st) t3 else t3)"

subsection \<open>The scheduler\<close>

text \<open>\<^verbatim>\<open>runTest(testFile)\<close>: announce, set \<^verbatim>\<open>running\<close>, execute, contain what is thrown.\<close>

definition runTest :: "driver \<Rightarrow> env \<Rightarrow> string \<Rightarrow> tester \<Rightarrow> tester" where
  "runTest casper E testFile t =
     (let t1 = bar (''Test file: '' @ testFile) ''INFO_BAR'' t;
          t2 = t1\<lparr>running := True, journal := journal t1 @ [Started testFile]\<rparr>
      in case exec casper E testFile t2 of
           (None, t3) \<Rightarrow> t3
         | (Some e, t3) \<Rightarrow> suite_done (fail (Caught e) t3))"

text \<open>
  What \<^verbatim>\<open>runSuites\<close> leaves behind: the Tester, and the variables its timer callback
  closes over, \<^verbatim>\<open>testFiles\<close>, \<^verbatim>\<open>current\<close> and the timer itself (\<open>interval\<close> holds while the
  timer is set).
\<close>

record sched =
  tester :: tester
  testFiles :: "string list"
  current :: nat
  interval :: bool


text \<open>
  The timer callback, which fires only while the timer is set. It does nothing while a
  suite is running; with every file done it renders the results (asking for the exit)
  and clears the timer; else it runs the next file.
\<close>

definition tick :: "driver \<Rightarrow> env \<Rightarrow> sched \<Rightarrow> sched" where
  "tick casper E s =
     (if \<not> interval s then s
      else if running (tester s) then s
      else if current s = length (testFiles s) then
        (let t1 = renderResults E True None None (tester s)
         in s\<lparr>tester := t1, interval := False\<rparr>)
      else
        (let t1 = runTest casper E (testFiles s ! current s) (tester s)
         in s\<lparr>tester := t1, current := current s + 1\<rparr>))"

text \<open>
  What happens between two returns to the event loop: the timer fires, or a step of
  the suite under way runs. Modelled from the spec: an exception that leaves a step is
  reported by the driver as \<^verbatim>\<open>step.error\<close>, for which the Tester has registered
  \<^verbatim>\<open>casper.test.fail(e); casper.test.done()\<close>.
\<close>

datatype event = Tick | Step script

fun step :: "driver \<Rightarrow> env \<Rightarrow> sched \<Rightarrow> event \<Rightarrow> sched" where
  "step casper E s Tick = tick casper E s"
| "step casper E s (Step sc) =
     (case run_script casper sc (tester s) of
        (None, t1) \<Rightarrow> s\<lparr>tester := t1\<rparr>
      | (Some e, t1) \<Rightarrow> s\<lparr>tester := suite_done (fail (Caught e) t1)\<rparr>)"

definition run :: "driver \<Rightarrow> env \<Rightarrow> sched \<Rightarrow> event list \<Rightarrow> sched" where
  "run casper E s evs = foldl (step casper E) s evs"

subsection \<open>Reading the journal\<close>




subsection \<open>Values without NaN\<close>

fun nan_free :: "jsval \<Rightarrow> bool" where
  "nan_free (JNum n) = (n \<noteq> NaN)"
| "nan_free (JArr xs) = list_all nan_free xs"
| "nan_free (JObj kvs) = list_all (\<lambda>kv. nan_free (snd kv)) kvs"
| "nan_free _ = True"

subsection \<open>Reading the results\<close>

text \<open>The number of assertions counted so far.\<close>

definition counted :: "tester \<Rightarrow> nat" where
  "counted t = passed (testResults t) + failed (testResults t)"

text \<open>
  One more assertion has been counted from \<open>t\<close> to \<open>t'\<close>: the total is one more, the
  failures have grown by as many records as \<open>failed\<close> has grown, and nothing was reset
  (neither counter went down, the old failures are still there, in front).
\<close>

definition results_step :: "tester \<Rightarrow> tester \<Rightarrow> bool" where
  "results_step t t' \<longleftrightarrow>
     counted t' = counted t + 1
     \<and> length (failures (testResults t')) + failed (testResults t)
         = length (failures (testResults t)) + failed (testResults t')
     \<and> passed (testResults t) \<le> passed (testResults t')
     \<and> failed (testResults t) \<le> failed (testResults t')
     \<and> prefix (failures (testResults t)) (failures (testResults t'))"

text \<open>
  What one argument of \<^verbatim>\<open>runSuites\<close> adds to \<^verbatim>\<open>testFiles\<close>: a directory the files found
  in it, a file itself, anything else nothing.
\<close>

definition contribution :: "nat \<Rightarrow> env \<Rightarrow> string \<Rightarrow> string list option" where
  "contribution n E path =
     (if fs_isDirectory E path then findTestFiles n E path
      else Some (if fs_isFile E path then [path] else []))"

subsection \<open>Reading a run\<close>

text \<open>
  The directory tree has finite depth: \<open>h\<close> gives every directory a height above that
  of each subdirectory listed in it. (A tree with a cycle has no such \<open>h\<close>, and on it
  \<^verbatim>\<open>findTestFiles\<close> does not return.)
\<close>

definition finite_depth :: "env \<Rightarrow> (string \<Rightarrow> nat) \<Rightarrow> bool" where
  "finite_depth E h =
     (\<forall>d e. fs_isDirectory E d \<and> e \<in> set (dir_entries E d) \<and> fs_isDirectory E e \<longrightarrow> h e < h d)"









section \<open>A small host\<close>

text \<open>
  A concrete driver and host, on which the definitions can be evaluated: a directory
  \<^verbatim>\<open>/t\<close> that lists a subdirectory \<^verbatim>\<open>sub\<close> (holding \<^verbatim>\<open>a.js\<close>), then \<^verbatim>\<open>z.js\<close> and
  \<^verbatim>\<open>notes.txt\<close>. The file \<^verbatim>\<open>/t/z.js\<close> passes one assertion and signals completion; any
  other script fails one assertion and throws.
\<close>

definition ends_with :: "string \<Rightarrow> string \<Rightarrow> bool" where
  "ends_with sfx p = (take (length sfx) (rev p) = rev sfx)"

definition sample_driver :: driver where
  "sample_driver =
     \<lparr> evaluate = (\<lambda>fn. JUndefined), exists = (\<lambda>selector. False),
       resourceExists = (\<lambda>tst. False), getTitle = ''title'', getCurrentUrl = ''about:blank'' \<rparr>"

definition sample_script :: "string \<Rightarrow> script" where
  "sample_script path =
     (if path = ''/t/z.js''
      then \<lparr> body = [Call (Pass (Message (JStr ''fine''))), SignalDone], raises = None \<rparr>
      else \<lparr> body = [Call (Assert (JBool False) (Message (JStr ''wrong'')))],
             raises = Some (Thrown (JStr ''boom'')) \<rparr>)"

definition sample_env :: env where
  "sample_env =
     \<lparr> fs_exists = (\<lambda>p. p = ''/t'' \<or> p = ''/t/sub'' \<or> p = ''/t/z.js'' \<or> p = ''/t/sub/a.js''
                          \<or> p = ''/t/notes.txt''),
       fs_isFile = (\<lambda>p. p = ''/t/z.js'' \<or> p = ''/t/sub/a.js'' \<or> p = ''/t/notes.txt''),
       fs_isDirectory = (\<lambda>p. p = ''/t'' \<or> p = ''/t/sub''),
       fs_list = (\<lambda>p. if p = ''/t'' then [''.'', ''..'', ''sub'', ''z.js'', ''notes.txt'']
                       else if p = ''/t/sub'' then [''.'', ''..'', ''a.js''] else []),
       fs_absolute = (\<lambda>p. p),
       fs_pathJoin = (\<lambda>dir entry. dir @ ''/'' @ entry),
       fs_write_error = (\<lambda>p. None),
       isJsFile = (\<lambda>p. ends_with ''.js'' p \<or> ends_with ''.coffee'' p),
       exec_file_filter = (\<lambda>p. None),
       getScriptCode = sample_script \<rparr>"

text \<open>The same host with a filter on \<^verbatim>\<open>exec.file\<close> that sends every path to \<^verbatim>\<open>/t/z.js\<close>.\<close>

definition redirecting_env :: env where
  "redirecting_env = sample_env\<lparr>exec_file_filter := (\<lambda>p. Some ''/t/z.js'')\<rparr>"

definition default_options :: options where
  "default_options = \<lparr> opt_PASS = None, opt_FAIL = None, opt_save = None \<rparr>"







text \<open>The heights of the directories of the sample host.\<close>

definition sample_height :: "string \<Rightarrow> nat" where
  "sample_height p = (if p = ''/t'' then 1 else 0)"

section \<open>Properties of the equality comparator\<close>

lemma nan_free_own_props: "nan_free v \<Longrightarrow> (k, x) \<in> set (own_props v) \<Longrightarrow> nan_free x"
  by (cases v) (auto simp: list_all_iff dest: set_zip_rightD)

lemma nan_free_getprop: "nan_free v \<Longrightarrow> nan_free (getprop v k)"
  unfolding getprop_def
  by (auto split: option.splits dest: map_of_SomeD nan_free_own_props)

lemma strict_equals_refl:
  "nan_free v \<Longrightarrow> \<not> instanceof_Object v \<Longrightarrow> strict_equals v v"
proof (cases v)
  case (JNum n)
  assume "nan_free v"
  with JNum show ?thesis by (cases n) simp_all
qed simp_all

text \<open>
  Claim C4 says that two plain objects are equal exactly when they have the same number
  of own keys and every key of one exists in the other with recursively equal values.
  The comparator reads \<^verbatim>\<open>v2[k]\<close> without asking whether \<open>k\<close> is a key of \<open>v2\<close>, and an
  absent property reads as \<^verbatim>\<open>undefined\<close>: \<^verbatim>\<open>{a: undefined}\<close> and \<^verbatim>\<open>{b: undefined}\<close> have
  one key each, the key \<open>a\<close> is not a key of the second object, and the comparator
  answers true.
\<close>

theorem testEquals_missing_key:
  "testEquals (JObj [(''a'', JUndefined)]) (JObj [(''b'', JUndefined)])
   \<and> ''a'' \<notin> set (keys (JObj [(''b'', JUndefined)]))
   \<and> length (keys (JObj [(''a'', JUndefined)])) = length (keys (JObj [(''b'', JUndefined)]))"
  by (simp add: testEquals.simps keys_def getprop_def)

text \<open>The order of the keys does not matter: \<^verbatim>\<open>{a:1,b:2}\<close> equals \<^verbatim>\<open>{b:2,a:1}\<close>.\<close>

lemma testEquals_key_order:
  "testEquals (JObj [(''a'', JNum (Finite 1)), (''b'', JNum (Finite 2))])
              (JObj [(''b'', JNum (Finite 2)), (''a'', JNum (Finite 1))])"
  by (simp add: testEquals.simps keys_def getprop_def)

text \<open>
  Claim C5 says that \<^verbatim>\<open>testEquals(a, a)\<close> is true for every non-cyclic value \<open>a\<close>. It is
  not for \<^verbatim>\<open>NaN\<close>, which \<^verbatim>\<open>===\<close> tells apart from itself.
\<close>

theorem testEquals_NaN_counterexample: "\<not> testEquals (JNum NaN) (JNum NaN)"
  by (simp add: testEquals.simps)

text \<open>
  Claim C5, amended: \<^verbatim>\<open>testEquals(a, a)\<close> is true for every non-cyclic value \<open>a\<close> in which
  \<^verbatim>\<open>NaN\<close> does not occur.
\<close>

theorem testEquals_reflexive: "nan_free a \<Longrightarrow> testEquals a a"
proof (induction a rule: measure_induct_rule [of size])
  case (less a)
  have props: "list_all (\<lambda>k. testEquals (getprop a k) (getprop a k)) (keys a)"
    unfolding list_all_iff
  proof
    fix k assume "k \<in> set (keys a)"
    then have "size (getprop a k) < size a" by (rule size_getprop)
    moreover have "nan_free (getprop a k)" using less.prems by (rule nan_free_getprop)
    ultimately show "testEquals (getprop a k) (getprop a k)" by (rule less.IH)
  qed
  show ?case
    using props strict_equals_refl [OF less.prems]
    by (subst testEquals.simps) simp
qed

theorem testEquals_reflexive_witness:
  "nan_free (JObj [(''a'', JNum (Finite 1)), (''b'', JArr [JStr ''x'', JNull])])
   \<and> testEquals (JObj [(''a'', JNum (Finite 1)), (''b'', JArr [JStr ''x'', JNull])])
        (JObj [(''a'', JNum (Finite 1)), (''b'', JArr [JStr ''x'', JNull])])"
  using testEquals_reflexive [of "JObj [(''a'', JNum (Finite 1)), (''b'', JArr [JStr ''x'', JNull])]"]
  by simp

section \<open>Properties of the assertions\<close>

text \<open>
  Claim C2: for every condition \<open>c\<close> and message \<open>m\<close>, \<^verbatim>\<open>assert(c, m)\<close> adds one to exactly
  one of the counters \<open>passed\<close> and \<open>failed\<close> and leaves the other as it was, and the one
  it adds to is \<open>failed\<close> if and only if \<open>c\<close> is not the boolean true.
\<close>

theorem assert_counts:
  "passed (testResults (snd (assert c m t))) =
     passed (testResults t) + (if c = JBool True then 1 else 0)
   \<and> failed (testResults (snd (assert c m t))) =
     failed (testResults t) + (if c = JBool True then 0 else 1)"
  by (simp add: assert_def Let_def echo_def emit_def addSuccess_def addFailure_def
      incr_passed_def incr_failed_def)

text \<open>
  Claim C9 says that \<^verbatim>\<open>assert(c, m)\<close> returns the boolean outcome. The function has no
  \<^verbatim>\<open>return\<close> statement: for a passing assertion the value of the call is not true.
\<close>

theorem assert_returns_counterexample:
  "fst (assert (JBool True) (Message (JStr ''ok''))
      (Tester \<lparr> opt_PASS = None, opt_FAIL = None, opt_save = None \<rparr>)) \<noteq> JBool True"
  by (simp add: assert_def Let_def)

text \<open>
  Claim C9, amended: for every condition \<open>c\<close> and message \<open>m\<close>, \<^verbatim>\<open>assert(c, m)\<close> returns
  \<^verbatim>\<open>undefined\<close>, whatever the outcome of the assertion.
\<close>

theorem assert_returns_undefined: "fst (assert c m t) = JUndefined"
  by (simp add: assert_def Let_def)

lemmas tester_ops = echo_def emit_def addSuccess_def addFailure_def incr_passed_def
  incr_failed_def Let_def

text \<open>
  Claim C6: \<^verbatim>\<open>assertRaises(fn, args, m)\<close> calls \<open>fn\<close> with \<open>args\<close> and records a passing
  assertion exactly when the call throws, a failing one (with its failure record)
  exactly when it returns; what was thrown plays no part in the result, which is that
  of \<^verbatim>\<open>pass(m)\<close>.
\<close>

theorem assertRaises_outcome:
  "assertRaises fn args m t = (JUndefined, if isl (fn args) then pass m t else fail m t)
   \<and> passed (testResults (snd (assertRaises fn args m t))) =
       passed (testResults t) + (if isl (fn args) then 1 else 0)
   \<and> failed (testResults (snd (assertRaises fn args m t))) =
       failed (testResults t) + (if isl (fn args) then 0 else 1)
   \<and> failures (testResults (snd (assertRaises fn args m t))) =
       failures (testResults t) @
         (if isl (fn args) then [] else [\<lparr> message = m, testfile = currentTestFile t \<rparr>])"
  by (cases "fn args")
     (simp_all add: assertRaises_def pass_def fail_def assert_def tester_ops)

subsection \<open>The invariant of the results\<close>

lemma assert_step:
  "counted (snd (assert c m t)) = counted t + 1"
  "length (failures (testResults (snd (assert c m t)))) + failed (testResults t)
     = length (failures (testResults t)) + failed (testResults (snd (assert c m t)))"
  "passed (testResults t) \<le> passed (testResults (snd (assert c m t)))"
  "failed (testResults t) \<le> failed (testResults (snd (assert c m t)))"
  "prefix (failures (testResults t)) (failures (testResults (snd (assert c m t))))"
  by (simp_all add: counted_def assert_def tester_ops)

lemma assertEquals_step:
  "counted (snd (assertEquals v e m t)) = counted t + 1"
  "length (failures (testResults (snd (assertEquals v e m t)))) + failed (testResults t)
     = length (failures (testResults t)) + failed (testResults (snd (assertEquals v e m t)))"
  "passed (testResults t) \<le> passed (testResults (snd (assertEquals v e m t)))"
  "failed (testResults t) \<le> failed (testResults (snd (assertEquals v e m t)))"
  "prefix (failures (testResults t)) (failures (testResults (snd (assertEquals v e m t))))"
  by (simp_all add: counted_def assertEquals_def tester_ops)

lemma assertMatch_step:
  "counted (snd (assertMatch s p m t)) = counted t + 1"
  "length (failures (testResults (snd (assertMatch s p m t)))) + failed (testResults t)
     = length (failures (testResults t)) + failed (testResults (snd (assertMatch s p m t)))"
  "passed (testResults t) \<le> passed (testResults (snd (assertMatch s p m t)))"
  "failed (testResults t) \<le> failed (testResults (snd (assertMatch s p m t)))"
  "prefix (failures (testResults t)) (failures (testResults (snd (assertMatch s p m t))))"
  by (simp_all add: counted_def assertMatch_def tester_ops)
lemma do_call_step:
  "do_call casper c t = (Inr v, t') \<Longrightarrow> results_step t t'"
  unfolding results_step_def
  by (cases c)
     (auto simp: returned_def assertEval_def assertEvalEquals_def assertExists_def
        assertNot_def assertResourceExists_def assertTitle_def assertType_def
        assertUrlMatch_def assertRaises_def pass_def fail_def assertSelectorExists_def
        assert_step assertEquals_step assertMatch_step split: sum.splits)

lemma do_calls_invariant:
  "do_calls casper cs t = (None, t') \<Longrightarrow>
     counted t' = counted t + length cs
     \<and> length (failures (testResults t')) + failed (testResults t)
         = length (failures (testResults t)) + failed (testResults t')
     \<and> passed (testResults t) \<le> passed (testResults t')
     \<and> failed (testResults t) \<le> failed (testResults t')
     \<and> prefix (failures (testResults t)) (failures (testResults t'))"
proof (induction cs arbitrary: t)
  case Nil
  then show ?case by simp
next
  case (Cons c cs)
  from Cons.prems obtain v t1 where c: "do_call casper c t = (Inr v, t1)"
    and rest: "do_calls casper cs t1 = (None, t')"
    by (auto split: prod.splits sum.splits)
  from do_call_step [OF c] have s: "results_step t t1" .
  from Cons.IH [OF rest] s show ?case
    unfolding results_step_def by (auto intro: prefix_order.trans)
qed

lemma do_calls_fresh:
  "do_calls casper cs (Tester options) = (None, t') \<Longrightarrow>
     passed (testResults t') + failed (testResults t') = length cs
     \<and> length (failures (testResults t')) = failed (testResults t')"
  using do_calls_invariant [of casper cs "Tester options" t']
  by (simp add: counted_def Tester_def)

text \<open>
  Claim C3 says that after any sequence of assertion calls, wrappers included,
  \<open>passed + failed\<close> is the number of calls made and the failures are as many as
  \<open>failed\<close>. It holds for every sequence whose calls return (\<open>do_calls_fresh\<close> above, and
  \<open>do_calls_invariant\<close> for the results never being reset). The wrapper
  \<^verbatim>\<open>assertSelectorExists\<close> does not return: it throws before \<^verbatim>\<open>assert\<close> is reached, and
  after this one call on a new Tester the counters still add up to 0.
\<close>

theorem assertSelectorExists_not_counted:
  "do_calls sample_driver [AssertSelectorExists ''body'' (Message (JStr ''has a body''))]
     (Tester default_options)
   = (Some (TypeError ''this.exists is not a function''), Tester default_options)
   \<and> passed (testResults (Tester default_options))
       + failed (testResults (Tester default_options)) = 0"
  by (simp add: assertSelectorExists_def Tester_def)

section \<open>Properties of exec\<close>

lemma exec_outcome:
  "fst (exec casper E path t) =
     (if fs_isFile E (filtered_file E path) \<and> isJsFile E (filtered_file E path) then None
      else Some (CasperError ''Can only exec() files with .js or .coffee extensions''))"
  by (auto simp: exec_def Let_def split: prod.splits option.splits)

lemma exec_thrown_state:
  "fst (exec casper E path t) \<noteq> None \<Longrightarrow> snd (exec casper E path t) = t"
  by (auto simp: exec_def Let_def split: prod.splits option.splits if_splits)

text \<open>
  Claim C10 says that \<^verbatim>\<open>exec(file)\<close> throws if and only if the given path is not an
  existing file with a script extension. The check is made on the path that the
  \<^verbatim>\<open>exec.file\<close> filter answers: with a filter that sends \<^verbatim>\<open>/t/notes.txt\<close> to the script
  \<^verbatim>\<open>/t/z.js\<close>, \<^verbatim>\<open>exec('/t/notes.txt')\<close> does not throw.
\<close>

theorem exec_filter_counterexample:
  "\<not> (fs_isFile redirecting_env ''/t/notes.txt'' \<and> isJsFile redirecting_env ''/t/notes.txt'')
   \<and> fst (exec sample_driver redirecting_env ''/t/notes.txt'' (Tester default_options)) = None"
  by (simp add: exec_outcome redirecting_env_def sample_env_def ends_with_def filtered_file_def)

text \<open>
  Claim C10, amended: \<^verbatim>\<open>exec(file)\<close> throws if and only if the path that the
  \<^verbatim>\<open>exec.file\<close> filter gives for \<open>file\<close> (\<open>file\<close> itself when no filter answers) is not an
  existing file with a recognised script extension; when it throws, the Tester state is
  unchanged, \<^verbatim>\<open>currentTestFile\<close> included.
\<close>

theorem exec_throws_iff:
  "(fst (exec casper E path t) \<noteq> None) =
     (\<not> (fs_isFile E (filtered_file E path) \<and> isJsFile E (filtered_file E path)))
   \<and> (fst (exec casper E path t) \<noteq> None \<longrightarrow> snd (exec casper E path t) = t)
   \<and> (exec_file_filter E path = None \<longrightarrow> filtered_file E path = path)"
  using exec_thrown_state [of casper E path t]
  by (simp add: exec_outcome filtered_file_def)

theorem exec_throws_iff_witness:
  "fst (exec sample_driver sample_env ''/t/notes.txt'' (Tester default_options)) \<noteq> None
   \<and> snd (exec sample_driver sample_env ''/t/notes.txt'' (Tester default_options))
       = Tester default_options
   \<and> exec_file_filter sample_env ''/t/notes.txt'' = None
   \<and> filtered_file sample_env ''/t/notes.txt'' = ''/t/notes.txt''"
  using exec_throws_iff [of sample_driver sample_env "''/t/notes.txt''" "Tester default_options"]
  by (simp add: sample_env_def ends_with_def filtered_file_def)

section \<open>Properties of suite discovery\<close>

lemma expand_dirs_Some:
  "expand_dirs rec isDir xs acc = Some r \<Longrightarrow>
     \<exists>subs. map rec (filter isDir xs) = map Some subs \<and> r = acc @ concat subs"
proof (induction xs arbitrary: acc)
  case Nil
  then show ?case by simp
next
  case (Cons x xs)
  show ?case
  proof (cases "isDir x")
    case False
    with Cons show ?thesis by simp
  next
    case True
    with Cons.prems obtain found where f: "rec x = Some found"
      and rest: "expand_dirs rec isDir xs (acc @ found) = Some r"
      by (auto split: option.splits)
    from Cons.IH [OF rest] obtain subs
      where "map rec (filter isDir xs) = map Some subs" "r = (acc @ found) @ concat subs"
      by blast
    with True f have "map rec (filter isDir (x # xs)) = map Some (found # subs)
        \<and> r = acc @ concat (found # subs)"
      by simp
    then show ?thesis by blast
  qed
qed

lemma expand_dirs_all:
  "map rec (filter isDir xs) = map Some subs \<Longrightarrow>
     expand_dirs rec isDir xs acc = Some (acc @ concat subs)"
proof (induction xs arbitrary: acc subs)
  case Nil
  then show ?case by simp
next
  case (Cons x xs)
  show ?case
  proof (cases "isDir x")
    case False
    with Cons show ?thesis by simp
  next
    case True
    with Cons.prems obtain found rest where subs: "subs = found # rest"
      and f: "rec x = Some found" and r: "map rec (filter isDir xs) = map Some rest"
      by (cases subs) auto
    from Cons.IH [OF r, of "acc @ found"] True f subs show ?thesis by simp
  qed
qed

lemma map_Some_ex:
  "(\<And>x. x \<in> set xs \<Longrightarrow> \<exists>y. f x = Some y) \<Longrightarrow> \<exists>ys. map f xs = map Some ys"
proof (induction xs)
  case Nil
  then show ?case by simp
next
  case (Cons x xs)
  then obtain y ys where "f x = Some y" "map f xs = map Some ys" by fastforce
  then have "map f (x # xs) = map Some (y # ys)" by simp
  then show ?case by blast
qed

lemma map_Some_transfer:
  "map f xs = map Some ys \<Longrightarrow> (\<And>x y. x \<in> set xs \<Longrightarrow> f x = Some y \<Longrightarrow> g x = Some y)
     \<Longrightarrow> map g xs = map Some ys"
proof (induction xs arbitrary: ys)
  case Nil
  then show ?case by simp
next
  case (Cons x xs)
  from Cons.prems(1) obtain y rest where ys: "ys = y # rest" and fx: "f x = Some y"
    and r: "map f xs = map Some rest"
    by (cases ys) auto
  from Cons.prems(2) [of x y] fx have "g x = Some y" by simp
  moreover from Cons.IH [OF r] Cons.prems(2) have "map g xs = map Some rest" by simp
  ultimately show ?case using ys by simp
qed

lemma findTestFiles_enough:
  "finite_depth E h \<Longrightarrow> h dir < m \<Longrightarrow> \<exists>found. findTestFiles m E dir = Some found"
proof (induction m arbitrary: dir)
  case 0
  then show ?case by simp
next
  case (Suc n)
  show ?case
  proof (cases "fs_isDirectory E dir")
    case False
    then show ?thesis by simp
  next
    case True
    have "\<exists>subs. map (findTestFiles n E) (filter (fs_isDirectory E) (dir_entries E dir)) = map Some subs"
    proof (rule map_Some_ex)
      fix e assume "e \<in> set (filter (fs_isDirectory E) (dir_entries E dir))"
      with True Suc.prems(1) have "h e < h dir" unfolding finite_depth_def by auto
      with Suc.prems(2) have "h e < n" by simp
      with Suc.IH [OF Suc.prems(1)] show "\<exists>y. findTestFiles n E e = Some y" by blast
    qed
    then obtain subs where
      "map (findTestFiles n E) (filter (fs_isDirectory E) (dir_entries E dir)) = map Some subs"
      by blast
    from expand_dirs_all [OF this, of "dir_entries E dir"] True show ?thesis by simp
  qed
qed

lemma findTestFiles_Suc:
  "findTestFiles m E dir = Some r \<Longrightarrow> findTestFiles (Suc m) E dir = Some r"
proof (induction m arbitrary: dir r)
  case 0
  then show ?case by simp
next
  case (Suc n)
  show ?case
  proof (cases "fs_isDirectory E dir")
    case False
    with Suc.prems show ?thesis by simp
  next
    case True
    let ?js = "\<lambda>entry. isJsFile E (fs_absolute E (fs_pathJoin E dir entry))"
    from Suc.prems True obtain entries where
      e: "expand_dirs (findTestFiles n E) (fs_isDirectory E) (dir_entries E dir) (dir_entries E dir) = Some entries"
      and r: "r = filter ?js entries"
      by (auto split: option.splits)
    from expand_dirs_Some [OF e] obtain subs where
      m: "map (findTestFiles n E) (filter (fs_isDirectory E) (dir_entries E dir)) = map Some subs"
      and en: "entries = dir_entries E dir @ concat subs"
      by blast
    have "map (findTestFiles (Suc n) E) (filter (fs_isDirectory E) (dir_entries E dir)) = map Some subs"
      by (rule map_Some_transfer [OF m]) (rule Suc.IH)
    from expand_dirs_all [OF this, of "dir_entries E dir"] True r en
    show ?thesis by (simp del: findTestFiles.simps add: findTestFiles.simps(2) [of "Suc n"])
  qed
qed

lemma findTestFiles_add:
  "findTestFiles m E dir = Some r \<Longrightarrow> findTestFiles (m + k) E dir = Some r"
  by (induction k) (simp_all add: findTestFiles_Suc del: findTestFiles.simps)

lemma findTestFiles_more:
  "findTestFiles m E dir = Some r \<Longrightarrow> m \<le> m' \<Longrightarrow> findTestFiles m' E dir = Some r"
  using findTestFiles_add [of m E dir r "m' - m"] by simp

lemma collect_Some:
  "collect n E paths acc t = Some (files, t') \<Longrightarrow>
     \<exists>parts. map (contribution n E) paths = map Some parts \<and> files = acc @ concat parts"
proof (induction paths arbitrary: acc t)
  case Nil
  then show ?case by simp
next
  case (Cons p ps)
  let ?t1 = "if \<not> fs_exists E p then bar (''Path '' @ p @ '' doesn't exist'') ''RED_BAR'' t else t"
  from Cons.prems obtain part where c: "contribution n E p = Some part"
    and rest: "collect n E ps (acc @ part) ?t1 = Some (files, t')"
    by (auto simp: contribution_def Let_def split: option.splits if_splits)
  from Cons.IH [OF rest] obtain parts
    where "map (contribution n E) ps = map Some parts" "files = (acc @ part) @ concat parts"
    by blast
  with c have "map (contribution n E) (p # ps) = map Some (part # parts)
      \<and> files = acc @ concat (part # parts)"
    by simp
  then show ?case by blast
qed

lemma collect_enough:
  "finite_depth E h \<Longrightarrow> list_all (\<lambda>p. fs_isDirectory E p \<longrightarrow> h p < n) paths \<Longrightarrow>
     \<exists>files t'. collect n E paths acc t = Some (files, t')"
proof (induction paths arbitrary: acc t)
  case Nil
  then show ?case by simp
next
  case (Cons p ps)
  let ?t1 = "if \<not> fs_exists E p then bar (''Path '' @ p @ '' doesn't exist'') ''RED_BAR'' t else t"
  from Cons.prems have rest: "list_all (\<lambda>p. fs_isDirectory E p \<longrightarrow> h p < n) ps" by simp
  note IH = Cons.IH [OF Cons.prems(1) rest]
  show ?case
  proof (cases "fs_isDirectory E p")
    case True
    with Cons.prems have "h p < n" by simp
    from findTestFiles_enough [OF Cons.prems(1) this] obtain found
      where "findTestFiles n E p = Some found" by blast
    with True IH [of "acc @ found" ?t1] show ?thesis by (simp add: Let_def)
  next
    case False
    with IH [of "acc @ [p]" ?t1] IH [of acc ?t1] show ?thesis by (simp add: Let_def)
  qed
qed
lemma sample_finite_depth: "finite_depth sample_env sample_height"
  unfolding finite_depth_def
  by (auto simp: sample_env_def sample_height_def dir_entries_def)

text \<open>
  Claim C8 says that the files of a directory come in depth-first order with every
  subdirectory expanded in place. In the sample host \<^verbatim>\<open>/t\<close> lists \<^verbatim>\<open>sub\<close> before
  \<^verbatim>\<open>z.js\<close>; in-place expansion gives \<^verbatim>\<open>/t/sub/a.js\<close> first, and \<^verbatim>\<open>findTestFiles\<close> gives
  \<^verbatim>\<open>/t/z.js\<close> first.
\<close>

theorem findTestFiles_counterexample:
  "findTestFiles (Suc (Suc 0)) sample_env ''/t'' = Some [''/t/z.js'', ''/t/sub/a.js'']
   \<and> spec_depth_first (Suc (Suc 0)) sample_env ''/t'' = Some [''/t/sub/a.js'', ''/t/z.js'']
   \<and> findTestFiles (Suc (Suc 0)) sample_env ''/t'' \<noteq> spec_depth_first (Suc (Suc 0)) sample_env ''/t''"
  by (simp add: sample_env_def dir_entries_def ends_with_def)

text \<open>
  Claim C8, amended: on a directory tree of finite depth, \<^verbatim>\<open>findTestFiles\<close> returns for
  every directory (with any bound above the height of the directory, and the same
  list for all of them) the entries of the directory in listing order, followed by the
  files found in its subdirectories, one subdirectory after the other in listing order
  (so the files of a subdirectory come after all entries of its parent), of which those
  with a script extension are kept; for what is not a directory it returns the empty
  list; and \<^verbatim>\<open>runSuites\<close> puts what each argument contributes in argument order, so
  that manually specified files keep their order.
\<close>

theorem findTestFiles_order:
  assumes "finite_depth E h"
  shows "(\<exists>found. (\<forall>m. h dir < m \<longrightarrow> findTestFiles m E dir = Some found)
           \<and> (if fs_isDirectory E dir
              then \<exists>subs. (\<forall>m. h dir < m \<longrightarrow>
                             map (findTestFiles m E) (filter (fs_isDirectory E) (dir_entries E dir))
                               = map Some subs)
                     \<and> found = filter (\<lambda>entry. isJsFile E (fs_absolute E (fs_pathJoin E dir entry)))
                                 (dir_entries E dir @ concat subs)
              else found = []))
     \<and> (list_all (\<lambda>p. fs_isDirectory E p \<longrightarrow> h p < n) paths \<longrightarrow>
          (\<exists>files t' parts. collect n E paths [] t = Some (files, t')
             \<and> map (contribution n E) paths = map Some parts \<and> files = concat parts))"
proof
  let ?js = "\<lambda>entry. isJsFile E (fs_absolute E (fs_pathJoin E dir entry))"
  let ?dirs = "filter (fs_isDirectory E) (dir_entries E dir)"
  from findTestFiles_enough [OF assms, of dir "Suc (h dir)"] obtain found
    where f0: "findTestFiles (Suc (h dir)) E dir = Some found" by auto
  have all: "\<forall>m. h dir < m \<longrightarrow> findTestFiles m E dir = Some found"
    using findTestFiles_more [OF f0] by (simp add: Suc_le_eq)
  have shape: "if fs_isDirectory E dir
      then \<exists>subs. (\<forall>m. h dir < m \<longrightarrow> map (findTestFiles m E) ?dirs = map Some subs)
             \<and> found = filter ?js (dir_entries E dir @ concat subs)
      else found = []"
  proof (cases "fs_isDirectory E dir")
    case False
    with f0 show ?thesis by simp
  next
    case True
    with f0 obtain entries where
      e: "expand_dirs (findTestFiles (h dir) E) (fs_isDirectory E) (dir_entries E dir) (dir_entries E dir) = Some entries"
      and r: "found = filter ?js entries"
      by (auto split: option.splits)
    from expand_dirs_Some [OF e] obtain subs where
      m0: "map (findTestFiles (h dir) E) ?dirs = map Some subs"
      and en: "entries = dir_entries E dir @ concat subs"
      by blast
    have "\<forall>m. h dir < m \<longrightarrow> map (findTestFiles m E) ?dirs = map Some subs"
    proof (intro allI impI)
      fix m assume "h dir < m"
      then have le: "h dir \<le> m" by simp
      show "map (findTestFiles m E) ?dirs = map Some subs"
        by (rule map_Some_transfer [OF m0]) (rule findTestFiles_more [OF _ le])
    qed
    with r en True show ?thesis by auto
  qed
  from all shape
  show "\<exists>found. (\<forall>m. h dir < m \<longrightarrow> findTestFiles m E dir = Some found)
           \<and> (if fs_isDirectory E dir
              then \<exists>subs. (\<forall>m. h dir < m \<longrightarrow> map (findTestFiles m E) ?dirs = map Some subs)
                     \<and> found = filter ?js (dir_entries E dir @ concat subs)
              else found = [])"
    by blast
next
  show "list_all (\<lambda>p. fs_isDirectory E p \<longrightarrow> h p < n) paths \<longrightarrow>
          (\<exists>files t' parts. collect n E paths [] t = Some (files, t')
             \<and> map (contribution n E) paths = map Some parts \<and> files = concat parts)"
  proof
    assume "list_all (\<lambda>p. fs_isDirectory E p \<longrightarrow> h p < n) paths"
    from collect_enough [OF assms this, of "[]" t] obtain files t'
      where c: "collect n E paths [] t = Some (files, t')" by blast
    from collect_Some [OF c] c
    show "\<exists>files t' parts. collect n E paths [] t = Some (files, t')
             \<and> map (contribution n E) paths = map Some parts \<and> files = concat parts"
      by auto
  qed
qed
theorem findTestFiles_order_witness:
  "finite_depth sample_env sample_height
   \<and> fs_isDirectory sample_env ''/t''
   \<and> list_all (\<lambda>p. fs_isDirectory sample_env p \<longrightarrow> sample_height p < Suc (Suc 0))
       [''/t/notes.txt'', ''/t'', ''/t/z.js'']
   \<and> findTestFiles (Suc (Suc 0)) sample_env ''/t'' = Some [''/t/z.js'', ''/t/sub/a.js'']
   \<and> (\<exists>found. (\<forall>m. sample_height ''/t'' < m \<longrightarrow> findTestFiles m sample_env ''/t'' = Some found)
         \<and> (\<exists>subs. (\<forall>m. sample_height ''/t'' < m \<longrightarrow>
                map (findTestFiles m sample_env)
                  (filter (fs_isDirectory sample_env) (dir_entries sample_env ''/t'')) = map Some subs)
               \<and> found = filter (\<lambda>entry. isJsFile sample_env
                                   (fs_absolute sample_env (fs_pathJoin sample_env ''/t'' entry)))
                           (dir_entries sample_env ''/t'' @ concat subs)))
   \<and> (\<exists>t'. collect (Suc (Suc 0)) sample_env [''/t/notes.txt'', ''/t'', ''/t/z.js''] []
             (Tester default_options)
           = Some ([''/t/notes.txt'', ''/t/z.js'', ''/t/sub/a.js'', ''/t/z.js''], t'))"
proof -
  have d: "fs_isDirectory sample_env ''/t''"
    by (simp add: sample_env_def)
  have l: "list_all (\<lambda>p. fs_isDirectory sample_env p \<longrightarrow> sample_height p < Suc (Suc 0))
       [''/t/notes.txt'', ''/t'', ''/t/z.js'']"
    by (simp add: sample_env_def sample_height_def)
  have f: "findTestFiles (Suc (Suc 0)) sample_env ''/t'' = Some [''/t/z.js'', ''/t/sub/a.js'']"
    by (simp add: sample_env_def dir_entries_def ends_with_def)
  have c: "\<exists>t'. collect (Suc (Suc 0)) sample_env [''/t/notes.txt'', ''/t'', ''/t/z.js''] []
             (Tester default_options)
           = Some ([''/t/notes.txt'', ''/t/z.js'', ''/t/sub/a.js'', ''/t/z.js''], t')"
    using f by (simp add: sample_env_def del: findTestFiles.simps)
  from findTestFiles_order [OF sample_finite_depth, of "''/t''" "Suc (Suc 0)"
      "[''/t/notes.txt'', ''/t'', ''/t/z.js'']" "Tester default_options"] d
  have "\<exists>found. (\<forall>m. sample_height ''/t'' < m \<longrightarrow> findTestFiles m sample_env ''/t'' = Some found)
         \<and> (\<exists>subs. (\<forall>m. sample_height ''/t'' < m \<longrightarrow>
                map (findTestFiles m sample_env)
                  (filter (fs_isDirectory sample_env) (dir_entries sample_env ''/t'')) = map Some subs)
               \<and> found = filter (\<lambda>entry. isJsFile sample_env
                                   (fs_absolute sample_env (fs_pathJoin sample_env ''/t'' entry)))
                           (dir_entries sample_env ''/t'' @ concat subs))"
    by simp
  with sample_finite_depth d l f c show ?thesis by blast
qed

section \<open>Properties of the scheduler\<close>














































end
